theory Spec2Isabelle
  imports Complex_Main "HOL-Library.AList" "HOL-Library.Product_Lexorder" "HOL-Library.Multiset"
begin

section \<open>Python numerics used by the planner\<close>

text \<open>
  The planner (\<^verbatim>\<open>src/planner.py\<close>) mixes Python's unbounded integers with
  \<^verbatim>\<open>float\<close> values. Integers are \<^typ>\<open>int\<close>. A finite float is the rational
  number it denotes, so float-typed data is \<^typ>\<open>rat\<close>; every float operation is the
  exact operation followed by rounding to the nearest value with a 53-bit significand,
  ties to even (\<open>to_binary64\<close>). The exponent range is not bounded: overflow to
  infinity, NaN and subnormal numbers are outside the model.
\<close>

datatype py_error = ZeroDivisionError

text \<open>Python's \<^verbatim>\<open>round(x)\<close> on a float: nearest integer, ties to the even one.\<close>

definition py_round :: "rat \<Rightarrow> int" where
  "py_round x =
     (let f = \<lfloor>x\<rfloor>; d = x - of_int f
      in if d < 1 / 2 then f
         else if 1 / 2 < d then f + 1
         else if even f then f else f + 1)"

text \<open>\<^verbatim>\<open>int.bit_length()\<close> for a non-negative integer.\<close>

function bit_length :: "int \<Rightarrow> int" where
  "bit_length n = (if n \<le> 0 then 0 else 1 + bit_length (n div 2))"
  by pat_completeness auto
termination
  by (relation "measure nat") auto

declare bit_length.simps [simp del]

text \<open>The binary exponent \<open>e\<close> of a non-zero rational: \<open>2^e \<le> |x| < 2^(e+1)\<close>.\<close>

definition float_exponent :: "rat \<Rightarrow> int" where
  "float_exponent x =
     (let a = \<bar>x\<bar>
      in if 1 \<le> a then bit_length \<lfloor>a\<rfloor> - 1
         else - bit_length (\<lceil>1 / a\<rceil> - 1))"

definition to_binary64 :: "rat \<Rightarrow> rat" where
  "to_binary64 x =
     (if x = 0 then 0
      else let u = power_int 2 (float_exponent x - 52)
           in of_int (py_round (x / u)) * u)"

text \<open>\<^verbatim>\<open>float(n)\<close>, applied implicitly when an int meets a float.\<close>

definition int_to_float :: "int \<Rightarrow> rat" where
  "int_to_float n = to_binary64 (of_int n)"

text \<open>\<^verbatim>\<open>a / b\<close> on two ints: the correctly rounded quotient.\<close>

definition int_truediv :: "int \<Rightarrow> int \<Rightarrow> py_error + rat" where
  "int_truediv a b =
     (if b = 0 then Inl ZeroDivisionError else Inr (to_binary64 (of_int a / of_int b)))"

definition float_add :: "rat \<Rightarrow> rat \<Rightarrow> rat" where
  "float_add x y = to_binary64 (x + y)"

definition float_sub :: "rat \<Rightarrow> rat \<Rightarrow> rat" where
  "float_sub x y = to_binary64 (x - y)"

definition float_mul :: "rat \<Rightarrow> rat \<Rightarrow> rat" where
  "float_mul x y = to_binary64 (x * y)"

definition float_truediv :: "rat \<Rightarrow> rat \<Rightarrow> py_error + rat" where
  "float_truediv x y =
     (if y = 0 then Inl ZeroDivisionError else Inr (to_binary64 (x / y)))"

text \<open>\<^verbatim>\<open>int(x)\<close> on a float truncates towards zero.\<close>

definition int_of_float :: "rat \<Rightarrow> int" where
  "int_of_float x = (if 0 \<le> x then \<lfloor>x\<rfloor> else \<lceil>x\<rceil>)"

text \<open>C's \<^verbatim>\<open>fmod\<close>: the exact remainder with the sign of the dividend.\<close>

definition c_fmod :: "rat \<Rightarrow> rat \<Rightarrow> rat" where
  "c_fmod x y = x - of_int (int_of_float (x / y)) * y"

text \<open>
  \<^verbatim>\<open>vx // wx\<close> on floats, as CPython computes it: the remainder by \<^verbatim>\<open>fmod\<close>, the
  quotient \<^verbatim>\<open>(vx - mod) / wx\<close> in floating point, one less when the remainder's sign
  differs from the divisor's, then snapped to the nearest integral value.
\<close>

definition float_floordiv :: "rat \<Rightarrow> rat \<Rightarrow> py_error + rat" where
  "float_floordiv vx wx =
     (if wx = 0 then Inl ZeroDivisionError
      else
        let md = c_fmod vx wx;
            dv = to_binary64 (float_sub vx md / wx);
            dv = (if md \<noteq> 0 \<and> (wx < 0) \<noteq> (md < 0) then float_sub dv 1 else dv)
        in if dv \<noteq> 0
           then (let floordiv = of_int \<lfloor>dv\<rfloor>
                 in if 1 / 2 < float_sub dv floordiv then Inr (float_add floordiv 1)
                    else Inr floordiv)
           else Inr 0)"

text \<open>
  \<^verbatim>\<open>_round_div(numer, denom)\<close>, lines 132-135:
  \<^verbatim>\<open>int((numer + denom / 2) // denom)\<close> after the guard \<^verbatim>\<open>denom <= 0\<close>. The division
  \<^verbatim>\<open>denom / 2\<close> is a true division, so the sum and the floor division are float
  operations.
\<close>

definition round_div :: "int \<Rightarrow> int \<Rightarrow> py_error + int" where
  "round_div numer denom =
     (if denom \<le> 0 then Inr 0
      else case int_truediv denom 2 of
             Inl e \<Rightarrow> Inl e
           | Inr half \<Rightarrow>
               (case float_floordiv (float_add (int_to_float numer) half) (int_to_float denom) of
                  Inl e \<Rightarrow> Inl e
                | Inr q \<Rightarrow> Inr (int_of_float q)))"

text \<open>Truthiness of an optional float (\<^verbatim>\<open>None\<close> and \<^verbatim>\<open>0.0\<close> are false) and of an
  optional string (\<^verbatim>\<open>None\<close> and the empty string are false); \<^verbatim>\<open>a or b\<close>.\<close>

definition float_or :: "rat option \<Rightarrow> rat option \<Rightarrow> rat option" where
  "float_or a b = (case a of Some w \<Rightarrow> if w \<noteq> 0 then a else b | None \<Rightarrow> b)"

definition str_or :: "string option \<Rightarrow> string option \<Rightarrow> string option" where
  "str_or a b = (case a of Some s \<Rightarrow> if s \<noteq> [] then a else b | None \<Rightarrow> b)"

text \<open>\<^verbatim>\<open>d.get(k, default)\<close> and \<^verbatim>\<open>d.setdefault(k, v)\<close> on a dictionary.\<close>

definition get_or :: "('k \<rightharpoonup> 'v) \<Rightarrow> 'k \<Rightarrow> 'v \<Rightarrow> 'v" where
  "get_or m k dflt = (case m k of None \<Rightarrow> dflt | Some v \<Rightarrow> v)"

definition setdefault :: "('k \<rightharpoonup> 'v) \<Rightarrow> 'k \<Rightarrow> 'v \<Rightarrow> ('k \<rightharpoonup> 'v)" where
  "setdefault m k v = (case m k of None \<Rightarrow> m(k \<mapsto> v) | Some _ \<Rightarrow> m)"

section \<open>Record model\<close>

text \<open>
  The dataclasses of lines 9-83. A \<^verbatim>\<open>datetime\<close> is a point of a linear order, here an
  integer timestamp. A dictionary that is only looked up is a map; a dictionary whose
  iteration order the code depends on (\<^verbatim>\<open>pallets_by_supplier\<close>, \<^verbatim>\<open>entries\<close>, the
  packer's \<^verbatim>\<open>grouped\<close>) is an association list in insertion order, with pairwise
  distinct keys. \<^verbatim>\<open>supplier_name\<close> of an allocation item can be \<^verbatim>\<open>None\<close> (line 359),
  so it is optional.
\<close>

type_synonym datetime = int

type_synonym demand_key = "int \<times> int \<times> datetime"

record DemandRow =
  dr_rc :: int
  dr_rc_name :: string
  dr_plu :: int
  dr_plu_name :: string
  dr_date :: datetime
  dr_qty :: rat

record ReserveInfo =
  ri_supplier_name :: "int \<rightharpoonup> string"
  ri_plu_name :: "int \<rightharpoonup> string"
  ri_rc_name :: "int \<rightharpoonup> string"
  ri_pallet_weight :: "int \<rightharpoonup> rat"
  ri_max_pallets :: "int \<rightharpoonup> int"
  ri_reserve :: "int \<times> int \<rightharpoonup> rat"
  ri_suppliers_by_plu :: "int \<rightharpoonup> int list"

record TemplateEntry =
  te_pallets_by_supplier :: "(int \<times> int) list"
  te_total_pallets :: int
  te_base_demand :: int

record TemplateData =
  td_entries :: "(demand_key \<times> TemplateEntry) list"
  td_shoulder_map :: "int \<times> int \<rightharpoonup> int"
  td_supplier_name :: "int \<rightharpoonup> string"
  td_plu_name :: "int \<rightharpoonup> string"
  td_rc_name :: "int \<rightharpoonup> string"
  td_pallet_weight :: "int \<rightharpoonup> rat"

record AllocationItem =
  ai_rc :: int
  ai_rc_name :: string
  ai_plu :: int
  ai_plu_name :: string
  ai_date :: datetime
  ai_supplier :: int
  ai_supplier_name :: "string option"
  ai_pallet_weight :: rat
  ai_pallets :: int

record OutputRow =
  or_date :: datetime
  or_supplier :: int
  or_supplier_name :: "string option"
  or_plu :: int
  or_plu_name :: string
  or_rc :: int
  or_rc_name :: string
  or_volume :: rat
  or_truck_id :: int
  or_shoulder :: int
  or_pallet_weight :: rat
  or_pallets :: int

record RunOptions =
  use_template :: bool
  scale_template :: bool
  include_template_without_demand :: bool
  use_template_when_no_demand :: bool
  ignore_reserve_limits :: bool
  default_truck_pallets :: int

section \<open>Template scaler\<close>

text \<open>The loop of lines 290-296: floor part and remainder of every supplier.\<close>

fun scale_loop ::
  "int \<Rightarrow> int \<Rightarrow> (int \<times> int) list \<Rightarrow>
   (int \<times> int) list \<times> (int \<times> int) list \<times> int \<Rightarrow>
   (int \<times> int) list \<times> (int \<times> int) list \<times> int" where
  "scale_loop demand_int base_demand [] acc = acc"
| "scale_loop demand_int base_demand ((supplier, pallets) # rest) (scaled, remainders, total_scaled) =
     (let numer = pallets * demand_int;
          base = numer div base_demand;
          rem = numer mod base_demand
      in scale_loop demand_int base_demand rest
           (AList.update supplier base scaled, remainders @ [(supplier, rem)], total_scaled + base))"

text \<open>The loops of lines 301-302 and 305-306: \<^verbatim>\<open>scaled[supplier] = f(scaled[supplier])\<close>
  for every listed supplier; each of them is a key of \<^verbatim>\<open>scaled\<close>.\<close>

fun adjust_all :: "(int \<Rightarrow> int) \<Rightarrow> int list \<Rightarrow> (int \<times> int) list \<Rightarrow> (int \<times> int) list" where
  "adjust_all f [] scaled = scaled"
| "adjust_all f (supplier # rest) scaled = adjust_all f rest (AList.map_entry supplier f scaled)"

text \<open>
  \<^verbatim>\<open>_scale_pallets\<close>, lines 278-307. \<^verbatim>\<open>list.sort\<close> is stable, also with
  \<^verbatim>\<open>reverse=True\<close>, as \<^const>\<open>sort_key\<close> is; descending order is ascending order of
  the negated key.
\<close>

definition scale_pallets :: "(int \<times> int) list \<Rightarrow> int \<Rightarrow> rat \<Rightarrow> py_error + (int \<times> int) list" where
  "scale_pallets pallets_by_supplier base_demand demand_value =
     (let demand_int = max 0 (py_round demand_value)
      in if base_demand \<le> 0 \<or> demand_int \<le> 0 then Inr []
         else
           let total_pallets = sum_list (map snd pallets_by_supplier)
           in case round_div (total_pallets * demand_int) base_demand of
                Inl e \<Rightarrow> Inl e
              | Inr desired_total \<Rightarrow>
                  (case scale_loop demand_int base_demand pallets_by_supplier ([], [], 0) of
                     (scaled, remainders, total_scaled) \<Rightarrow>
                       let delta = desired_total - total_scaled;
                           scaled' =
                             (if delta > 0
                              then adjust_all (\<lambda>v. v + 1)
                                     (map fst (take (nat delta) (sort_key (\<lambda>x. - snd x) remainders)))
                                     scaled
                              else if delta < 0
                              then adjust_all (\<lambda>v. max 0 (v - 1))
                                     (map fst (take (nat \<bar>delta\<bar>) (sort_key snd remainders)))
                                     scaled
                              else scaled)
                       in Inr (filter (\<lambda>(k, v). v > 0) scaled')))"

section \<open>Allocation builder\<close>

text \<open>The first loop of \<^verbatim>\<open>build_allocations\<close>, lines 317-324: the demand summed per key
  and the display names back-filled into the catalog.\<close>

fun aggregate_demand ::
  "DemandRow list \<Rightarrow> (demand_key \<rightharpoonup> rat) \<times> ReserveInfo \<Rightarrow> (demand_key \<rightharpoonup> rat) \<times> ReserveInfo" where
  "aggregate_demand [] acc = acc"
| "aggregate_demand (row # rows) (demand_by_key, reserve) =
     (let key = (dr_rc row, dr_plu row, dr_date row);
          demand_by_key = demand_by_key(key \<mapsto> float_add (get_or demand_by_key key 0) (dr_qty row));
          reserve =
            (if dr_rc_name row \<noteq> []
             then reserve\<lparr>ri_rc_name := setdefault (ri_rc_name reserve) (dr_rc row) (dr_rc_name row)\<rparr>
             else reserve);
          reserve =
            (if dr_plu_name row \<noteq> []
             then reserve\<lparr>ri_plu_name := setdefault (ri_plu_name reserve) (dr_plu row) (dr_plu_name row)\<rparr>
             else reserve)
      in aggregate_demand rows (demand_by_key, reserve))"

text \<open>Lines 326-328: every template entry gets the rounded aggregated demand of its key.\<close>

definition set_base_demand :: "(demand_key \<rightharpoonup> rat) \<Rightarrow> TemplateData \<Rightarrow> TemplateData" where
  "set_base_demand demand_by_key template =
     template\<lparr>td_entries :=
       map (\<lambda>(key, entry). (key, entry\<lparr>te_base_demand := py_round (get_or demand_by_key key 0)\<rparr>))
         (td_entries template)\<rparr>"

text \<open>Lines 333-337: the pallet weight of a demand row's product.\<close>

definition demand_pallet_weight :: "ReserveInfo \<Rightarrow> TemplateData option \<Rightarrow> int \<Rightarrow> rat" where
  "demand_pallet_weight reserve template plu =
     (case float_or (ri_pallet_weight reserve plu)
             (case template of Some t \<Rightarrow> td_pallet_weight t plu | None \<Rightarrow> None) of
        Some w \<Rightarrow> if w \<noteq> 0 then w else 1
      | None \<Rightarrow> 1)"

text \<open>
  Lines 339-353: the per-supplier pallet split of one demand row. The quantity is the
  last argument; the loop below passes \<^verbatim>\<open>row.qty\<close>.
\<close>

definition pallet_split ::
  "ReserveInfo \<Rightarrow> TemplateData option \<Rightarrow> RunOptions \<Rightarrow> demand_key \<Rightarrow> rat \<Rightarrow> rat \<Rightarrow>
   py_error + (int \<times> int) list" where
  "pallet_split reserve template options key pallet_weight quantity =
     (case (case template of
              Some t \<Rightarrow> if use_template options then map_of (td_entries t) key else None
            | None \<Rightarrow> None) of
        Some entry \<Rightarrow>
          if scale_template options \<and> te_base_demand entry > 0
          then scale_pallets (te_pallets_by_supplier entry) (te_base_demand entry) quantity
          else if use_template_when_no_demand options \<or> \<not> scale_template options
          then Inr (te_pallets_by_supplier entry)
          else Inr []
      | None \<Rightarrow>
          (case float_truediv quantity pallet_weight of
             Inl e \<Rightarrow> Inl e
           | Inr ratio \<Rightarrow>
               let pallets_total = \<lceil>ratio\<rceil>;
                   suppliers = get_or (ri_suppliers_by_plu reserve) (fst (snd key)) [];
                   supplier = (case suppliers of [] \<Rightarrow> 0 | s # _ \<Rightarrow> s)
               in if supplier \<noteq> 0 then Inr [(supplier, pallets_total)] else Inr []))"

text \<open>Lines 355-373: one allocation item per supplier of the split with a positive count.\<close>

fun emit_items ::
  "ReserveInfo \<Rightarrow> TemplateData option \<Rightarrow> DemandRow \<Rightarrow> rat \<Rightarrow> (int \<times> int) list \<Rightarrow> AllocationItem list" where
  "emit_items reserve template row pallet_weight [] = []"
| "emit_items reserve template row pallet_weight ((supplier, pallets) # rest) =
     (if pallets \<le> 0 then emit_items reserve template row pallet_weight rest
      else
        \<lparr>ai_rc = dr_rc row,
         ai_rc_name = get_or (ri_rc_name reserve) (dr_rc row) (dr_rc_name row),
         ai_plu = dr_plu row,
         ai_plu_name = get_or (ri_plu_name reserve) (dr_plu row) (dr_plu_name row),
         ai_date = dr_date row,
         ai_supplier = supplier,
         ai_supplier_name =
           str_or (ri_supplier_name reserve supplier)
             (case template of Some t \<Rightarrow> td_supplier_name t supplier | None \<Rightarrow> Some []),
         ai_pallet_weight = pallet_weight,
         ai_pallets = pallets\<rparr>
        # emit_items reserve template row pallet_weight rest)"

text \<open>The loop of lines 331-373 over the demand rows; an exception ends it.\<close>

fun demand_items ::
  "ReserveInfo \<Rightarrow> TemplateData option \<Rightarrow> RunOptions \<Rightarrow> DemandRow list \<Rightarrow>
   py_error + AllocationItem list" where
  "demand_items reserve template options [] = Inr []"
| "demand_items reserve template options (row # rows) =
     (let key = (dr_rc row, dr_plu row, dr_date row);
          pallet_weight = demand_pallet_weight reserve template (dr_plu row)
      in case pallet_split reserve template options key pallet_weight (dr_qty row) of
           Inl e \<Rightarrow> Inl e
         | Inr pallets_by_supplier \<Rightarrow>
             (case demand_items reserve template options rows of
                Inl e \<Rightarrow> Inl e
              | Inr items \<Rightarrow>
                  Inr (emit_items reserve template row pallet_weight pallets_by_supplier @ items)))"

text \<open>Lines 375-397: the template entries whose key has no demand at all.\<close>

definition template_pallet_weight :: "ReserveInfo \<Rightarrow> TemplateData \<Rightarrow> int \<Rightarrow> rat" where
  "template_pallet_weight reserve template plu =
     (case float_or (float_or (ri_pallet_weight reserve plu) (td_pallet_weight template plu)) (Some 1) of
        Some w \<Rightarrow> w
      | None \<Rightarrow> 1)"

fun emit_template_items ::
  "ReserveInfo \<Rightarrow> TemplateData \<Rightarrow> demand_key \<Rightarrow> rat \<Rightarrow> (int \<times> int) list \<Rightarrow> AllocationItem list" where
  "emit_template_items reserve template key pallet_weight [] = []"
| "emit_template_items reserve template key pallet_weight ((supplier, pallets) # rest) =
     (if pallets \<le> 0 then emit_template_items reserve template key pallet_weight rest
      else
        (case key of (rc, plu, date) \<Rightarrow>
          \<lparr>ai_rc = rc,
           ai_rc_name = get_or (ri_rc_name reserve) rc (get_or (td_rc_name template) rc []),
           ai_plu = plu,
           ai_plu_name = get_or (ri_plu_name reserve) plu (get_or (td_plu_name template) plu []),
           ai_date = date,
           ai_supplier = supplier,
           ai_supplier_name =
             str_or (ri_supplier_name reserve supplier)
               (Some (get_or (td_supplier_name template) supplier [])),
           ai_pallet_weight = pallet_weight,
           ai_pallets = pallets\<rparr>)
        # emit_template_items reserve template key pallet_weight rest)"

fun template_only_items ::
  "(demand_key \<rightharpoonup> rat) \<Rightarrow> ReserveInfo \<Rightarrow> TemplateData \<Rightarrow> (demand_key \<times> TemplateEntry) list \<Rightarrow>
   AllocationItem list" where
  "template_only_items demand_by_key reserve template [] = []"
| "template_only_items demand_by_key reserve template ((key, entry) # rest) =
     (if demand_by_key key \<noteq> None then template_only_items demand_by_key reserve template rest
      else
        emit_template_items reserve template key
          (template_pallet_weight reserve template (fst (snd key)))
          (te_pallets_by_supplier entry)
        @ template_only_items demand_by_key reserve template rest)"

text \<open>
  \<^verbatim>\<open>build_allocations\<close>, lines 310-400. The function mutates the catalog and the
  template in place; the model returns them with the items.
\<close>

definition build_allocations ::
  "DemandRow list \<Rightarrow> ReserveInfo \<Rightarrow> TemplateData option \<Rightarrow> RunOptions \<Rightarrow>
   py_error + AllocationItem list \<times> ReserveInfo \<times> TemplateData option" where
  "build_allocations demand_rows reserve template options =
     (case aggregate_demand demand_rows (Map.empty, reserve) of
        (demand_by_key, reserve) \<Rightarrow>
          let template = map_option (set_base_demand demand_by_key) template
          in case demand_items reserve template options demand_rows of
               Inl e \<Rightarrow> Inl e
             | Inr items \<Rightarrow>
                 Inr (items @
                      (case template of
                         Some t \<Rightarrow>
                           if use_template options \<and> include_template_without_demand options
                           then template_only_items demand_by_key reserve t (td_entries t)
                           else []
                       | None \<Rightarrow> []),
                      reserve, template))"

section \<open>Truck packer\<close>

text \<open>Line 417: \<^verbatim>\<open>reserve.max_pallets.get(supplier, options.default_truck_pallets)\<close>.\<close>

definition truck_capacity :: "ReserveInfo \<Rightarrow> RunOptions \<Rightarrow> int \<Rightarrow> int" where
  "truck_capacity reserve options supplier =
     get_or (ri_max_pallets reserve) supplier (default_truck_pallets options)"

text \<open>Lines 410-412: \<^verbatim>\<open>grouped.setdefault(item.supplier, []).append(item)\<close>.\<close>

fun group_by_supplier ::
  "AllocationItem list \<Rightarrow> (int \<times> AllocationItem list) list \<Rightarrow> (int \<times> AllocationItem list) list" where
  "group_by_supplier [] grouped = grouped"
| "group_by_supplier (item # items) grouped =
     group_by_supplier items
       (AList.update (ai_supplier item)
          (get_or (map_of grouped) (ai_supplier item) [] @ [item]) grouped)"

text \<open>The variables the packing loops share.\<close>

record pack_state =
  ps_remaining :: int
  ps_current_truck :: int
  ps_truck_id :: int
  ps_rows :: "OutputRow list"

text \<open>One pass through the body of the \<^verbatim>\<open>while\<close> loop, lines 427-452: the pallets left
  afterwards and the new state.\<close>

definition pack_take ::
  "int \<Rightarrow> TemplateData option \<Rightarrow> int \<Rightarrow> AllocationItem \<Rightarrow> int \<Rightarrow> pack_state \<Rightarrow> int \<times> pack_state" where
  "pack_take cap template supplier item pallets_left st =
     (let st =
            (if ps_remaining st = 0
             then st\<lparr>ps_current_truck := ps_truck_id st,
                     ps_truck_id := ps_truck_id st + 1,
                     ps_remaining := cap\<rparr>
             else st);
          take = min (ps_remaining st) pallets_left;
          shoulder =
            (case template of
               Some t \<Rightarrow> get_or (td_shoulder_map t) (supplier, ai_rc item) 1
             | None \<Rightarrow> 1);
          row =
            \<lparr>or_date = ai_date item,
             or_supplier = supplier,
             or_supplier_name = ai_supplier_name item,
             or_plu = ai_plu item,
             or_plu_name = ai_plu_name item,
             or_rc = ai_rc item,
             or_rc_name = ai_rc_name item,
             or_volume = float_mul (int_to_float take) (ai_pallet_weight item),
             or_truck_id = ps_current_truck st,
             or_shoulder = shoulder,
             or_pallet_weight = ai_pallet_weight item,
             or_pallets = take\<rparr>
      in (pallets_left - take,
          st\<lparr>ps_remaining := ps_remaining st - take, ps_rows := ps_rows st @ [row]\<rparr>))"

text \<open>The \<^verbatim>\<open>while pallets_left > 0\<close> loop of lines 426-452. It need not end, so
  not returning is the value \<open>None\<close>.\<close>

partial_function (option) fill_trucks ::
  "int \<Rightarrow> TemplateData option \<Rightarrow> int \<Rightarrow> AllocationItem \<Rightarrow> int \<Rightarrow> pack_state \<Rightarrow> pack_state option" where
  "fill_trucks cap template supplier item pallets_left st =
     (if pallets_left > 0
      then (case pack_take cap template supplier item pallets_left st of
              (pallets_left', st') \<Rightarrow> fill_trucks cap template supplier item pallets_left' st')
      else Some st)"

declare fill_trucks.simps [code]

text \<open>The loop of lines 424-452 over the sorted items of one supplier.\<close>

fun pack_items ::
  "int \<Rightarrow> TemplateData option \<Rightarrow> int \<Rightarrow> AllocationItem list \<Rightarrow> pack_state \<Rightarrow> pack_state option" where
  "pack_items cap template supplier [] st = Some st"
| "pack_items cap template supplier (item # items) st =
     (case fill_trucks cap template supplier item (ai_pallets item) st of
        None \<Rightarrow> None
      | Some st' \<Rightarrow> pack_items cap template supplier items st')"

text \<open>The loop of lines 416-452 over the suppliers. \<^verbatim>\<open>grouped[supplier]\<close> cannot raise:
  the suppliers are the keys of \<^verbatim>\<open>grouped\<close>.\<close>

fun pack_suppliers ::
  "ReserveInfo \<Rightarrow> TemplateData option \<Rightarrow> RunOptions \<Rightarrow> (int \<times> AllocationItem list) list \<Rightarrow>
   int list \<Rightarrow> pack_state \<Rightarrow> pack_state option" where
  "pack_suppliers reserve template options grouped [] st = Some st"
| "pack_suppliers reserve template options grouped (supplier # rest) st =
     (let cap = truck_capacity reserve options supplier;
          st = st\<lparr>ps_remaining := 0, ps_current_truck := 0\<rparr>;
          items_sorted =
            sort_key (\<lambda>x. (ai_date x, ai_rc x, ai_plu x)) (get_or (map_of grouped) supplier [])
      in case pack_items cap template supplier items_sorted st of
           None \<Rightarrow> None
         | Some st' \<Rightarrow> pack_suppliers reserve template options grouped rest st')"

text \<open>\<^verbatim>\<open>pack_trucks\<close>, lines 403-454.\<close>

definition pack_trucks ::
  "AllocationItem list \<Rightarrow> ReserveInfo \<Rightarrow> TemplateData option \<Rightarrow> RunOptions \<Rightarrow> OutputRow list option" where
  "pack_trucks items reserve template options =
     (let grouped = group_by_supplier items []
      in map_option ps_rows
           (pack_suppliers reserve template options grouped (sort (map fst grouped))
              \<lparr>ps_remaining = 0, ps_current_truck = 0, ps_truck_id = 1, ps_rows = []\<rparr>))"


definition truck_load :: "OutputRow list \<Rightarrow> int \<Rightarrow> int" where
  "truck_load rows t = sum_list (map or_pallets (filter (\<lambda>r. or_truck_id r = t) rows))"

section \<open>The pipeline\<close>

text \<open>
  Lines 511-512 of \<^verbatim>\<open>run_plan\<close>: the builder, then the packer on the catalog and
  template the builder has updated. \<open>None\<close>: the run does not end; \<open>Some (Inl e)\<close>: it
  raises \<open>e\<close>; \<open>Some (Inr rows)\<close>: it returns \<open>rows\<close>.
\<close>

definition run_plan_core ::
  "DemandRow list \<Rightarrow> ReserveInfo \<Rightarrow> TemplateData option \<Rightarrow> RunOptions \<Rightarrow>
   (py_error + OutputRow list) option" where
  "run_plan_core demand_rows reserve template options =
     (case build_allocations demand_rows reserve template options of
        Inl e \<Rightarrow> Some (Inl e)
      | Inr (allocations, reserve', template') \<Rightarrow>
          map_option Inr (pack_trucks allocations reserve' template' options))"

section \<open>Step 3 as the specification words it\<close>





section \<open>Concrete inputs\<close>

text \<open>\<^verbatim>\<open>RunOptions()\<close> and \<^verbatim>\<open>ReserveInfo()\<close> with the defaults of the dataclasses, and
  an allocation item of supplier 7 with five pallets.\<close>

definition default_options :: RunOptions where
  "default_options =
     \<lparr>use_template = True, scale_template = True, include_template_without_demand = True,
      use_template_when_no_demand = True, ignore_reserve_limits = True,
      default_truck_pallets = 32\<rparr>"

definition empty_reserve :: ReserveInfo where
  "empty_reserve =
     \<lparr>ri_supplier_name = Map.empty, ri_plu_name = Map.empty, ri_rc_name = Map.empty,
      ri_pallet_weight = Map.empty, ri_max_pallets = Map.empty, ri_reserve = Map.empty,
      ri_suppliers_by_plu = Map.empty\<rparr>"

definition example_item :: AllocationItem where
  "example_item =
     \<lparr>ai_rc = 1, ai_rc_name = ''RC'', ai_plu = 5, ai_plu_name = ''P'', ai_date = 100,
      ai_supplier = 7, ai_supplier_name = Some ''S'', ai_pallet_weight = 10, ai_pallets = 5\<rparr>"

text \<open>An item of supplier 3 with three pallets.\<close>

definition second_item :: AllocationItem where
  "second_item =
     \<lparr>ai_rc = 2, ai_rc_name = ''RC2'', ai_plu = 6, ai_plu_name = ''Q'', ai_date = 90,
      ai_supplier = 3, ai_supplier_name = Some ''T'', ai_pallet_weight = 4, ai_pallets = 3\<rparr>"







section \<open>Rounding to binary64 is exact on small integers and halves\<close>

lemma bit_length_nonneg: "0 \<le> bit_length n"
  by (induction n rule: bit_length.induct) (subst bit_length.simps, simp)

lemma bit_length_le: "n < 2 ^ k \<Longrightarrow> bit_length n \<le> int k"
proof (induction k arbitrary: n)
  case 0
  then show ?case by (subst bit_length.simps) simp
next
  case (Suc k)
  show ?case
  proof (cases "n \<le> 0")
    case True
    then show ?thesis by (subst bit_length.simps) simp
  next
    case False
    have "n div 2 < 2 ^ k" using Suc.prems by simp
    then have "bit_length (n div 2) \<le> int k" by (rule Suc.IH)
    then show ?thesis using False by (subst bit_length.simps) simp
  qed
qed

lemma float_exponent_le:
  assumes "\<bar>x\<bar> < 2 ^ p" and "0 < p"
  shows "float_exponent x \<le> int p - 1"
proof (cases "1 \<le> \<bar>x\<bar>")
  case True
  have "\<lfloor>\<bar>x\<bar>\<rfloor> < 2 ^ p"
    using assms(1) by (simp add: floor_less_iff)
  then have "bit_length \<lfloor>\<bar>x\<bar>\<rfloor> \<le> int p"
    by (rule bit_length_le)
  then show ?thesis using True by (simp add: float_exponent_def)
next
  case False
  then show ?thesis
    using bit_length_nonneg [of "\<lceil>1 / \<bar>x\<bar>\<rceil> - 1"] assms(2)
    by (simp add: float_exponent_def)
qed

lemma py_round_of_int: "py_round (of_int k) = k"
  by (simp add: py_round_def)

lemma to_binary64_exactI:
  assumes x: "x = of_int k / 2 ^ j" and e: "float_exponent x \<le> 52 - int j"
  shows "to_binary64 x = x"
proof (cases "x = 0")
  case True
  then show ?thesis by (simp add: to_binary64_def)
next
  case False
  define e where "e = float_exponent x"
  define m where "m = nat (52 - int j - e)"
  have u: "power_int (2::rat) (e - 52) = 1 / (2 ^ j * 2 ^ m)"
  proof -
    have "e - 52 = - int (j + m)" using e by (simp add: m_def e_def)
    then have "power_int (2::rat) (e - 52) = power_int 2 (- int (j + m))" by simp
    also have "\<dots> = inverse (2 ^ (j + m))"
      by (simp only: power_int_minus power_int_of_nat)
    finally show ?thesis by (simp add: field_simps power_add)
  qed
  have "x / power_int 2 (e - 52) = of_int (k * 2 ^ m)"
    by (simp add: u x)
  then have "py_round (x / power_int 2 (e - 52)) = k * 2 ^ m"
    by (simp only: py_round_of_int)
  then have "to_binary64 x = of_int (k * 2 ^ m) * power_int 2 (e - 52)"
    using False by (simp add: to_binary64_def e_def Let_def)
  also have "\<dots> = x" by (simp add: u x)
  finally show ?thesis .
qed

lemma to_binary64_int:
  assumes "\<bar>n\<bar> < 2 ^ 53"
  shows "to_binary64 (of_int n) = of_int n"
proof (rule to_binary64_exactI [where k = n and j = 0])
  have "\<bar>(of_int n :: rat)\<bar> < 2 ^ 53"
    using assms by (metis of_int_abs of_int_less_numeral_power_cancel_iff)
  then show "float_exponent (of_int n) \<le> 52 - int 0"
    using float_exponent_le [of "of_int n" 53] by simp
qed simp

lemma to_binary64_half:
  assumes "\<bar>k\<bar> < 2 ^ 53"
  shows "to_binary64 (of_int k / 2) = of_int k / 2"
proof (rule to_binary64_exactI [where k = k and j = 1])
  have "\<bar>(of_int k :: rat)\<bar> < 2 ^ 53"
    using assms by (metis of_int_abs of_int_less_numeral_power_cancel_iff)
  then have "\<bar>(of_int k :: rat) / 2\<bar> < 2 ^ 52" by simp
  then show "float_exponent (of_int k / 2) \<le> 52 - int 1"
    using float_exponent_le [of "of_int k / 2" 52] by simp
qed simp

lemma round_div_exact:
  assumes n: "0 \<le> n" and d: "0 < d" and b: "2 * n + d < 2 ^ 53"
  shows "round_div n d = Inr ((2 * n + d) div (2 * d))"
proof -
  define q where "q = (2 * n + d) div (2 * d)"
  define vx :: rat where "vx = of_int (2 * n + d) / 2"
  have q0: "0 \<le> q" using n d by (simp add: q_def pos_imp_zdiv_nonneg_iff)
  have qd: "q * (2 * d) \<le> 2 * n + d"
  proof -
    have "(2 * d) * q + (2 * n + d) mod (2 * d) = 2 * n + d"
      unfolding q_def by (rule mult_div_mod_eq)
    moreover have "0 \<le> (2 * n + d) mod (2 * d)" using d by simp
    ultimately show ?thesis by (simp add: mult.commute)
  qed
  have qle: "q * d \<le> 2 * n + d" "q \<le> 2 * n + d"
  proof -
    have "q * d \<le> q * (2 * d)" using q0 d by (simp add: mult_left_mono)
    then show "q * d \<le> 2 * n + d" using qd by linarith
    have "q * 1 \<le> q * d" using q0 d by (intro mult_left_mono) auto
    then show "q \<le> 2 * n + d" using \<open>q * d \<le> 2 * n + d\<close> by linarith
  qed
  have half: "int_truediv d 2 = Inr (of_int d / 2)"
    using to_binary64_half [of d] d b n by (simp add: int_truediv_def)
  have fn: "int_to_float n = of_int n"
    using to_binary64_int [of n] n b d by (simp add: int_to_float_def)
  have fd: "int_to_float d = of_int d"
    using to_binary64_int [of d] n b d by (simp add: int_to_float_def)
  have sum: "float_add (of_int n) (of_int d / 2) = vx"
  proof -
    have "(of_int n :: rat) + of_int d / 2 = of_int (2 * n + d) / 2" by simp
    then show ?thesis
      using to_binary64_half [of "2 * n + d"] n d b
      by (simp only: float_add_def vx_def)
  qed
  have quot: "vx / of_int d = of_int (2 * n + d) / of_int (2 * d)"
    by (simp add: vx_def)
  have fq: "\<lfloor>vx / of_int d\<rfloor> = q"
    unfolding quot q_def by (rule floor_divide_of_int_eq)
  have vpos: "0 \<le> vx / of_int d"
    using n d by (simp add: vx_def)
  have md: "c_fmod vx (of_int d) = vx - of_int q * of_int d"
    using vpos fq by (simp add: c_fmod_def int_of_float_def)
  have md0: "0 \<le> vx - of_int q * of_int d"
  proof -
    have "(of_int (q * (2 * d)) :: rat) \<le> of_int (2 * n + d)"
      using qd by (simp only: of_int_le_iff)
    then show ?thesis by (simp add: vx_def)
  qed
  have sub: "float_sub vx (vx - of_int q * of_int d) = of_int q * of_int d"
  proof -
    have "\<bar>q * d\<bar> < 2 ^ 53" using qle q0 d b by simp
    then show ?thesis using to_binary64_int [of "q * d"] by (simp add: float_sub_def)
  qed
  have dv: "to_binary64 (of_int q) = of_int q"
  proof -
    have "\<bar>q\<bar> < 2 ^ 53" using qle q0 b by simp
    then show ?thesis by (rule to_binary64_int)
  qed
  have self: "float_sub (of_int q) (of_int q) = 0"
    by (simp add: float_sub_def to_binary64_def)
  have res: "float_floordiv vx (of_int d) = Inr (of_int q)"
    using d md0 by (simp add: float_floordiv_def md sub dv self Let_def)
  show ?thesis
    using d q0 by (simp add: round_div_def half fn fd sum res int_of_float_def q_def)
qed

section \<open>The rounded division\<close>

text \<open>
  Claim C7, as amended. For a numerator \<open>n \<ge> 0\<close> and a denominator \<open>d > 0\<close> with
  \<open>2 n + d < 2^53\<close>, \<^verbatim>\<open>_round_div(n, d)\<close> returns the floor of \<open>(n + d/2) / d\<close> taken
  over the rationals, which is the floor of \<open>(2 n + d) / (2 d)\<close>. The function computes
  in binary64 floating point, not in integer arithmetic, and the bound is what keeps
  every intermediate value exact.
\<close>

theorem round_div_half_up_below_2_53:
  assumes "0 \<le> n" and "0 < d" and "2 * n + d < 2 ^ 53"
  shows "round_div n d = Inr \<lfloor>(of_int n + of_int d / 2) / (of_int d :: rat)\<rfloor> \<and>
         \<lfloor>(of_int n + of_int d / 2) / (of_int d :: rat)\<rfloor> =
         \<lfloor>of_int (2 * n + d) / (of_int (2 * d) :: rat)\<rfloor>"
proof -
  have "(of_int n + of_int d / 2) / (of_int d :: rat) = of_int (2 * n + d) / of_int (2 * d)"
    using assms(2) by (simp add: field_simps)
  moreover have "\<lfloor>of_int (2 * n + d) / (of_int (2 * d) :: rat)\<rfloor> = (2 * n + d) div (2 * d)"
    by (rule floor_divide_of_int_eq)
  ultimately show ?thesis
    using round_div_exact [OF assms] by simp
qed

theorem round_div_half_up_witness:
  "(0::int) \<le> 150 \<and> (0::int) < 10 \<and> 2 * 150 + 10 < (2::int) ^ 53 \<and>
   round_div 150 10 = Inr 15"
proof -
  have "\<lfloor>31 / 2 :: rat\<rfloor> = 15" by code_simp
  then show ?thesis
    using round_div_half_up_below_2_53 [of 150 10] by simp
qed

text \<open>
  The claim as stated, for every \<open>n \<ge> 0\<close> and \<open>d > 0\<close>, fails at \<open>n = 2^53 + 1\<close>,
  \<open>d = 1\<close>: \<^verbatim>\<open>numer + denom / 2\<close> converts \<open>n\<close> to the float \<open>2^53\<close>, adding \<open>0.5\<close>
  rounds back to \<open>2^53\<close>, and the result is \<open>2^53\<close>, while the floor of the exact value
  is \<open>2^53 + 1\<close>.
\<close>

theorem round_div_float_counterexample:
  "(0::int) \<le> 9007199254740993 \<and> (0::int) < 1 \<and>
   round_div 9007199254740993 1 = Inr 9007199254740992 \<and>
   \<lfloor>(of_int 9007199254740993 + of_int 1 / 2) / (of_int 1 :: rat)\<rfloor> = 9007199254740993 \<and>
   \<lfloor>of_int (2 * 9007199254740993 + 1) / (of_int (2 * 1) :: rat)\<rfloor> = 9007199254740993"
  by code_simp

section \<open>The template scaler\<close>

text \<open>
  Claim C8. \<^verbatim>\<open>_scale_pallets\<close> returns the empty mapping whenever
  \<^verbatim>\<open>max(0, round(new_demand))\<close> is \<open>0\<close> or \<^verbatim>\<open>base_demand <= 0\<close>, whatever the
  historical split; the witness is the split \<open>{A: 1}\<close> with base demand 100 and new
  demand 0.4.
\<close>

theorem scale_pallets_empty:
  "max 0 (py_round new_demand) = 0 \<or> base_demand \<le> 0 \<Longrightarrow>
     scale_pallets historical_split base_demand new_demand = Inr []"
  by (auto simp: scale_pallets_def Let_def)

theorem scale_pallets_empty_witness:
  "max 0 (py_round (to_binary64 (2 / 5))) = 0 \<and>
   scale_pallets [(1, 1)] 100 (to_binary64 (2 / 5)) = Inr []"
proof -
  have r: "max 0 (py_round (to_binary64 (2 / 5))) = 0" by code_simp
  then show ?thesis
    using scale_pallets_empty [of "to_binary64 (2 / 5)" 100 "[(1, 1)]"] by simp
qed

subsection \<open>The scaled split sums to the desired total\<close>

lemma update_absent: "k \<notin> fst ` set al \<Longrightarrow> AList.update k v al = al @ [(k, v)]"
  by (induction al) auto

lemma scale_loop_distinct:
  assumes "distinct (map fst scaled @ map fst xs)"
  shows "scale_loop D B xs (scaled, rems, tot) =
     (scaled @ map (\<lambda>(s, p). (s, p * D div B)) xs,
      rems @ map (\<lambda>(s, p). (s, p * D mod B)) xs,
      tot + sum_list (map (\<lambda>(s, p). p * D div B) xs))"
  using assms
proof (induction xs arbitrary: scaled rems tot)
  case Nil
  then show ?case by simp
next
  case (Cons x xs)
  obtain s p where x: "x = (s, p)" by (cases x)
  from Cons.prems x have absent: "s \<notin> fst ` set scaled" by auto
  from Cons.prems x have d: "distinct (map fst (scaled @ [(s, p * D div B)]) @ map fst xs)"
    by auto
  show ?case
    using Cons.IH [OF d] absent by (simp add: x update_absent Let_def)
qed

lemma map_fst_map_entry: "map fst (AList.map_entry k f al) = map fst al"
  by (induction al) auto

lemma sum_map_entry_incr:
  "distinct (map fst al) \<Longrightarrow> k \<in> fst ` set al \<Longrightarrow>
     sum_list (map snd (AList.map_entry k (\<lambda>v. v + 1) al)) = sum_list (map snd al) + (1::int)"
proof (induction al)
  case Nil
  then show ?case by simp
next
  case (Cons a al)
  then show ?case by (cases a) (auto simp: image_iff)
qed

lemma nonneg_map_entry_incr:
  "\<forall>v \<in> snd ` set al. (0::int) \<le> v \<Longrightarrow> \<forall>v \<in> snd ` set (AList.map_entry k (\<lambda>v. v + 1) al). 0 \<le> v"
  by (induction al) auto

lemma adjust_all_incr:
  assumes "distinct (map fst al)" "distinct ks" "set ks \<subseteq> fst ` set al"
    and "\<forall>v \<in> snd ` set al. (0::int) \<le> v"
  shows "sum_list (map snd (adjust_all (\<lambda>v. v + 1) ks al)) = sum_list (map snd al) + int (length ks) \<and>
         (\<forall>v \<in> snd ` set (adjust_all (\<lambda>v. v + 1) ks al). 0 \<le> v)"
  using assms
proof (induction ks arbitrary: al)
  case Nil
  then show ?case by simp
next
  case (Cons k ks)
  let ?al = "AList.map_entry k (\<lambda>v. v + 1) al"
  have keys: "map fst ?al = map fst al" by (rule map_fst_map_entry)
  have 1: "distinct (map fst ?al)" using Cons.prems(1) keys by simp
  have 2: "distinct ks" using Cons.prems(2) by simp
  have "fst ` set ?al = fst ` set al"
    using keys by (metis set_map)
  then have 3: "set ks \<subseteq> fst ` set ?al" using Cons.prems(3) by simp
  have 4: "\<forall>v \<in> snd ` set ?al. 0 \<le> v"
    using Cons.prems(4) by (rule nonneg_map_entry_incr)
  have s: "sum_list (map snd ?al) = sum_list (map snd al) + 1"
    using Cons.prems(1,3) by (intro sum_map_entry_incr) auto
  show ?case using Cons.IH [OF 1 2 3 4] s by simp
qed

lemma sum_filter_pos:
  "\<forall>v \<in> snd ` set al. (0::int) \<le> v \<Longrightarrow>
     sum_list (map snd (filter (\<lambda>(k, v). 0 < v) al)) = sum_list (map snd al)"
  by (induction al) (auto simp: less_le)

lemma round_of_int_div:
  assumes "0 < b"
  shows "round (of_int a / of_int b :: rat) = (2 * a + b) div (2 * b)"
proof -
  have "(of_int a / of_int b :: rat) + 1 / 2 = of_int (2 * a + b) / of_int (2 * b)"
    using assms by (simp add: field_simps)
  then show ?thesis
    unfolding round_def by (simp only: floor_divide_of_int_eq)
qed

lemma sum_div_mod:
  "sum_list (map (\<lambda>(s, p). p * D) xs) =
     B * sum_list (map (\<lambda>(s, p). p * D div B) xs) + sum_list (map (\<lambda>(s, p). p * D mod B) xs)"
  for B :: int
  by (induction xs) (auto simp: algebra_simps)

lemma sum_mod_bounds:
  fixes B :: int
  assumes "0 < B"
  shows "0 \<le> sum_list (map (\<lambda>(s, p). p * D mod B) xs) \<and>
         sum_list (map (\<lambda>(s, p). p * D mod B) xs) \<le> int (length xs) * (B - 1)"
proof (induction xs)
  case Nil
  then show ?case by simp
next
  case (Cons x xs)
  obtain s p where x: "x = (s, p)" by (cases x)
  have "0 \<le> p * D mod B" "p * D mod B \<le> B - 1"
    using assms pos_mod_bound [of B "p * D"] by simp_all
  then show ?case using Cons.IH by (simp add: x algebra_simps)
qed

lemma sum_times: "sum_list (map (\<lambda>(s, p). p * D) xs) = sum_list (map snd xs) * D"
  for D :: int
  by (induction xs) (auto simp: algebra_simps)

lemma delta_bounds:
  fixes B :: int
  assumes B: "0 < B"
  defines "S \<equiv> \<lambda>D xs. sum_list (map (\<lambda>(s, p). p * D div B) xs)"
  shows "0 \<le> (2 * (sum_list (map snd xs) * D) + B) div (2 * B) - S D xs \<and>
         (2 * (sum_list (map snd xs) * D) + B) div (2 * B) - S D xs \<le> int (length xs)"
proof -
  define rho where "rho = sum_list (map (\<lambda>(s, p). p * D mod B) xs)"
  have TD: "sum_list (map snd xs) * D = B * S D xs + rho"
    using sum_div_mod [of D xs B] by (simp add: sum_times S_def rho_def)
  have rho: "0 \<le> rho" "rho \<le> int (length xs) * (B - 1)"
    using sum_mod_bounds [OF B, of D xs] by (simp_all add: rho_def)
  have "2 * (sum_list (map snd xs) * D) + B = (2 * rho + B) + S D xs * (2 * B)"
    unfolding TD by (simp add: algebra_simps)
  then have "(2 * (sum_list (map snd xs) * D) + B) div (2 * B) =
      ((2 * rho + B) + S D xs * (2 * B)) div (2 * B)"
    by (simp only:)
  also have "\<dots> = S D xs + (2 * rho + B) div (2 * B)"
    using B by (subst div_mult_self1) simp_all
  finally have eq: "(2 * (sum_list (map snd xs) * D) + B) div (2 * B) =
      S D xs + (2 * rho + B) div (2 * B)" .
  have lo: "0 \<le> (2 * rho + B) div (2 * B)"
    using rho(1) B by (simp add: pos_imp_zdiv_nonneg_iff)
  have "2 * rho + B < (int (length xs) + 1) * (2 * B)"
  proof -
    have "2 * rho + B \<le> 2 * (int (length xs) * (B - 1)) + B" using rho(2) by simp
    also have "\<dots> < (int (length xs) + 1) * (2 * B)" using B by (simp add: algebra_simps)
    finally show ?thesis .
  qed
  moreover have "(2 * B) * ((2 * rho + B) div (2 * B)) \<le> 2 * rho + B"
  proof -
    have "(2 * B) * ((2 * rho + B) div (2 * B)) + (2 * rho + B) mod (2 * B) = 2 * rho + B"
      by (rule mult_div_mod_eq)
    moreover have "0 \<le> (2 * rho + B) mod (2 * B)" using B by simp
    ultimately show ?thesis by linarith
  qed
  ultimately have "(2 * B) * ((2 * rho + B) div (2 * B)) < (2 * B) * (int (length xs) + 1)"
    by (simp add: algebra_simps)
  then have "(2 * rho + B) div (2 * B) < int (length xs) + 1"
    using B by (simp only: mult_less_cancel_left_pos)
  then show ?thesis using eq lo by simp
qed

lemma keys_of_top:
  assumes "distinct (map fst rems)"
  shows "distinct (map fst (take n (sort_key f rems))) \<and>
         set (map fst (take n (sort_key f rems))) \<subseteq> fst ` set rems"
proof -
  have "distinct (map fst (sort_key f rems))"
    using assms by (simp add: distinct_map)
  then have "distinct (take n (map fst (sort_key f rems)))" by (rule distinct_take)
  moreover have "set (take n (sort_key f rems)) \<subseteq> set rems"
    using set_take_subset [of n "sort_key f rems"] by simp
  ultimately show ?thesis by (auto simp: take_map)
qed

text \<open>
  Claim C3, as amended. For a historical split (a dictionary: pairwise distinct
  suppliers) whose pallet counts are all non-negative, \<^verbatim>\<open>base_demand > 0\<close> and
  \<^verbatim>\<open>demand_int = max(0, round(new_demand)) > 0\<close>, with
  \<open>2 * total_old * demand_int + base_demand < 2^53\<close> so that the float division of
  \<^verbatim>\<open>_round_div\<close> is exact, the values of the result sum to the round-half-up of
  \<open>total_old * demand_int / base_demand\<close>. The branch \<^verbatim>\<open>delta < 0\<close> is never taken
  under these conditions, so no supplier is clamped. The witness is the split
  \<open>{A: 6, B: 4}\<close> with base demand 10 and new demand 15, scaled to \<open>{A: 9, B: 6}\<close>.
\<close>

theorem scale_pallets_preserves_total:
  assumes wf: "distinct (map fst split)"
    and nonneg: "\<forall>p \<in> snd ` set split. 0 \<le> p"
    and B: "0 < base_demand" and D: "0 < py_round new_demand"
    and bound: "2 * (sum_list (map snd split) * py_round new_demand) + base_demand < 2 ^ 53"
  shows "\<exists>result. scale_pallets split base_demand new_demand = Inr result \<and>
           sum_list (map snd result) =
             round (of_int (sum_list (map snd split) * py_round new_demand) / of_int base_demand :: rat)"
proof -
  define Dm where "Dm = py_round new_demand"
  define T where "T = sum_list (map snd split)"
  define scaled where "scaled = map (\<lambda>(s, p). (s, p * Dm div base_demand)) split"
  define rems where "rems = map (\<lambda>(s, p). (s, p * Dm mod base_demand)) split"
  define S where "S = sum_list (map (\<lambda>(s, p). p * Dm div base_demand) split)"
  define desired where "desired = (2 * (T * Dm) + base_demand) div (2 * base_demand)"
  define delta where "delta = desired - S"
  have T0: "0 \<le> T" unfolding T_def using nonneg by (intro sum_list_nonneg) auto
  then have TD0: "0 \<le> T * Dm" using D by (simp add: Dm_def)
  have rd: "round_div (T * Dm) base_demand = Inr desired"
    unfolding desired_def using TD0 B bound by (intro round_div_exact) (simp_all add: T_def Dm_def)
  have loop: "scale_loop Dm base_demand split ([], [], 0) = (scaled, rems, S)"
    using scale_loop_distinct [of "[]" split Dm base_demand "[]" 0] wf
    by (simp add: scaled_def rems_def S_def)
  have keys_scaled: "map fst scaled = map fst split"
    by (simp add: scaled_def case_prod_unfold comp_def)
  have keys_rems: "map fst rems = map fst split"
    by (simp add: rems_def case_prod_unfold comp_def)
  have sum_scaled: "sum_list (map snd scaled) = S"
    by (simp add: scaled_def S_def case_prod_unfold comp_def)
  have nn_scaled: "\<forall>v \<in> snd ` set scaled. 0 \<le> v"
    using nonneg D B by (auto simp: scaled_def Dm_def pos_imp_zdiv_nonneg_iff)
  have db: "0 \<le> delta" "delta \<le> int (length split)"
    using delta_bounds [OF B, of split Dm] by (simp_all add: delta_def desired_def S_def T_def)
  define scaled' where "scaled' =
    (if delta > 0
     then adjust_all (\<lambda>v. v + 1) (map fst (take (nat delta) (sort_key (\<lambda>x. - snd x) rems))) scaled
     else scaled)"
  have adj: "sum_list (map snd scaled') = S + delta \<and> (\<forall>v \<in> snd ` set scaled'. 0 \<le> v)"
  proof (cases "delta > 0")
    case True
    let ?ks = "map fst (take (nat delta) (sort_key (\<lambda>x. - snd x) rems))"
    have kt: "distinct ?ks \<and> set ?ks \<subseteq> fst ` set rems"
      using wf keys_rems by (intro keys_of_top) simp
    have "fst ` set rems = fst ` set scaled"
      using keys_rems keys_scaled by (metis set_map)
    then have sub: "set ?ks \<subseteq> fst ` set scaled" using kt by simp
    have len: "int (length ?ks) = delta"
      using db True by (simp add: rems_def)
    have "distinct (map fst scaled)" using wf keys_scaled by simp
    from adjust_all_incr [OF this _ sub nn_scaled] kt
    show ?thesis using True len sum_scaled by (simp add: scaled'_def)
  next
    case False
    then show ?thesis using db sum_scaled nn_scaled by (simp add: scaled'_def)
  qed
  have dm: "max 0 (py_round new_demand) = py_round new_demand" using D by simp
  have res: "scale_pallets split base_demand new_demand = Inr (filter (\<lambda>(k, v). v > 0) scaled')"
    unfolding scale_pallets_def Let_def dm
    using B D db(1)
    by (simp add: rd [unfolded T_def Dm_def] loop [unfolded Dm_def] scaled'_def delta_def)
  have "sum_list (map snd (filter (\<lambda>(k, v). v > 0) scaled')) = desired"
    using adj sum_filter_pos [of scaled'] by (simp add: delta_def)
  also have "desired = round (of_int (T * Dm) / of_int base_demand :: rat)"
    unfolding desired_def by (rule round_of_int_div [OF B, symmetric])
  finally show ?thesis using res by (simp add: T_def Dm_def)
qed

theorem scale_pallets_preserves_total_witness:
  "scale_pallets [(1, 6), (2, 4)] 10 15 = Inr [(1, 9), (2, 6)] \<and>
   sum_list (map snd [(1 :: int, 9 :: int), (2, 6)]) = 15 \<and>
   round (of_int (sum_list (map snd [(1 :: int, 6), (2, 4)]) * py_round 15) / of_int 10 :: rat) = 15"
proof -
  have e: "scale_pallets [(1, 6), (2, 4)] 10 15 = Inr [(1, 9), (2, 6)]" by code_simp
  have r: "py_round 15 = 15" by code_simp
  have "\<exists>result. scale_pallets [(1, 6), (2, 4)] 10 15 = Inr result \<and>
           sum_list (map snd result) =
             round (of_int (sum_list (map snd [(1 :: int, 6), (2, 4)]) * py_round 15) / of_int 10 :: rat)"
    by (rule scale_pallets_preserves_total) (simp_all add: r)
  then show ?thesis using e by simp
qed

text \<open>
  The claim as stated, for every historical split, fails in two ways. A negative
  historical count (\<^verbatim>\<open>_to_int\<close> reads one from the template file) passes through
  the scaling and is dropped by the final filter \<^verbatim>\<open>v > 0\<close>: \<open>{A: -1, B: 3}\<close> with
  base demand 1 and new demand 1 has \<open>delta = 0\<close> and gives \<open>{B: 3}\<close>, sum 3, while
  the desired total is 2. And a total of \<open>2^53 + 1\<close> is rounded by the float division
  to \<open>2^53\<close>: \<open>{A: 2^53 + 1}\<close> with base demand 1 and new demand 1 has \<open>delta = -1\<close>
  and gives \<open>{A: 2^53}\<close>, clamping nothing.
\<close>

theorem scale_pallets_total_counterexample:
  "max 0 (py_round 1) = 1 \<and>
   scale_loop 1 1 [(1, - 1), (2, 3)] ([], [], 0) = ([(1, - 1), (2, 3)], [(1, 0), (2, 0)], 2) \<and>
   round_div (sum_list (map snd [(1 :: int, - 1), (2, 3)]) * 1) 1 = Inr 2 \<and>
   scale_pallets [(1, - 1), (2, 3)] 1 1 = Inr [(2, 3)] \<and>
   sum_list (map snd [(2 :: int, 3 :: int)]) = 3 \<and>
   round (of_int (sum_list (map snd [(1 :: int, - 1), (2, 3)]) * 1) / of_int 1 :: rat) = 2 \<and>
   scale_pallets [(1, 9007199254740993)] 1 1 = Inr [(1, 9007199254740992)] \<and>
   round (of_int (sum_list (map snd [(1 :: int, 9007199254740993)]) * 1) / of_int 1 :: rat) =
     9007199254740993"
  by code_simp

section \<open>The option that is never read\<close>

lemma pallet_split_ignore:
  "pallet_split reserve template (options\<lparr>ignore_reserve_limits := b\<rparr>) key pw q =
   pallet_split reserve template options key pw q"
  by (simp add: pallet_split_def cong: option.case_cong if_cong)

lemma demand_items_ignore:
  "demand_items reserve template (options\<lparr>ignore_reserve_limits := b\<rparr>) rows =
   demand_items reserve template options rows"
  by (induction rows) (simp_all add: pallet_split_ignore Let_def cong: sum.case_cong)

lemma build_allocations_ignore:
  "build_allocations rows reserve template (options\<lparr>ignore_reserve_limits := b\<rparr>) =
   build_allocations rows reserve template options"
  by (simp add: build_allocations_def demand_items_ignore Let_def
      cong: sum.case_cong option.case_cong prod.case_cong)

lemma pack_suppliers_ignore:
  "pack_suppliers reserve template (options\<lparr>ignore_reserve_limits := b\<rparr>) grouped suppliers st =
   pack_suppliers reserve template options grouped suppliers st"
  by (induction suppliers arbitrary: st)
    (simp_all add: truck_capacity_def Let_def cong: option.case_cong)

lemma pack_trucks_ignore:
  "pack_trucks items reserve template (options\<lparr>ignore_reserve_limits := b\<rparr>) =
   pack_trucks items reserve template options"
  by (simp add: pack_trucks_def pack_suppliers_ignore)

text \<open>
  Claim C9. The builder followed by the packer gives the same result whatever
  \<^verbatim>\<open>ignore_reserve_limits\<close> is set to, all other options being equal: the same rows,
  the same exception or the same failure to end.
\<close>

theorem ignore_reserve_limits_no_effect:
  "run_plan_core demand_rows reserve template (options\<lparr>ignore_reserve_limits := b\<rparr>) =
   run_plan_core demand_rows reserve template options"
  by (simp add: run_plan_core_def build_allocations_ignore pack_trucks_ignore
      cong: sum.case_cong prod.case_cong)

section \<open>The packing loop with a capacity that is not positive\<close>

lemma pack_take_nonpos_cap:
  assumes "cap \<le> 0" "ps_remaining st = 0" "0 < pallets_left"
    and "pack_take cap template supplier item pallets_left st = (p', st')"
  shows "ps_remaining st' = 0 \<and> 0 < p'"
  using assms by (auto simp: pack_take_def Let_def min_def split: if_splits)

lemma fill_trucks_Some_cap:
  assumes "fill_trucks cap template supplier item pallets_left st = Some y"
  shows "\<not> (cap \<le> 0 \<and> ps_remaining st = 0 \<and> 0 < pallets_left)"
proof (rule fill_trucks.raw_induct
    [where P = "\<lambda>cap template supplier item pallets_left st y.
                  \<not> (cap \<le> 0 \<and> ps_remaining st = 0 \<and> 0 < pallets_left)", OF _ assms])
  fix fill cap template supplier item pallets_left and st y :: pack_state
  assume IH: "\<And>cap template supplier item pallets_left st y.
      fill cap template supplier item pallets_left st = Some y \<Longrightarrow>
      \<not> (cap \<le> 0 \<and> ps_remaining st = 0 \<and> 0 < pallets_left)"
    and body: "(if 0 < pallets_left
       then case pack_take cap template supplier item pallets_left st of
              (pallets_left', st') \<Rightarrow> fill cap template supplier item pallets_left' st'
       else Some st) = Some y"
  show "\<not> (cap \<le> 0 \<and> ps_remaining st = 0 \<and> 0 < pallets_left)"
  proof
    assume bad: "cap \<le> 0 \<and> ps_remaining st = 0 \<and> 0 < pallets_left"
    obtain p' st' where step: "pack_take cap template supplier item pallets_left st = (p', st')"
      by (cases "pack_take cap template supplier item pallets_left st")
    from bad step have next_bad: "ps_remaining st' = 0 \<and> 0 < p'"
      using pack_take_nonpos_cap by blast
    from body bad step have "fill cap template supplier item p' st' = Some y" by simp
    then have "\<not> (cap \<le> 0 \<and> ps_remaining st' = 0 \<and> 0 < p')" by (rule IH)
    with bad next_bad show False by simp
  qed
qed

lemma fill_trucks_diverges:
  "cap \<le> 0 \<Longrightarrow> ps_remaining st = 0 \<Longrightarrow> 0 < pallets_left \<Longrightarrow>
     fill_trucks cap template supplier item pallets_left st = None"
  using fill_trucks_Some_cap [of cap template supplier item pallets_left st]
  by (cases "fill_trucks cap template supplier item pallets_left st") auto

section \<open>Invariants of the packing loops\<close>

text \<open>
  \<open>slice_of\<close>: an output row is a slice of an allocation item. \<open>rows_inv\<close>: what holds
  of the rows emitted so far and the truck counter between any two suppliers.
  \<open>pack_inv\<close>: what holds in addition while one supplier is packed, at the head of
  the \<^verbatim>\<open>while\<close> loop.
\<close>

definition slice_of :: "AllocationItem \<Rightarrow> int \<Rightarrow> OutputRow \<Rightarrow> bool" where
  "slice_of item supplier row \<longleftrightarrow>
     1 \<le> or_pallets row \<and>
     or_volume row = float_mul (int_to_float (or_pallets row)) (ai_pallet_weight item) \<and>
     or_supplier row = supplier \<and>
     or_date row = ai_date item \<and> or_rc row = ai_rc item \<and> or_plu row = ai_plu item \<and>
     or_pallet_weight row = ai_pallet_weight item"

definition rows_inv :: "(int \<Rightarrow> int) \<Rightarrow> int \<Rightarrow> OutputRow list \<Rightarrow> bool" where
  "rows_inv caps t rows \<longleftrightarrow>
     1 \<le> t \<and>
     sorted (map or_truck_id rows) \<and>
     set (map or_truck_id rows) = {1..<t} \<and>
     (\<forall>x \<in> set rows. truck_load rows (or_truck_id x) \<le> caps (or_supplier x)) \<and>
     (\<forall>x \<in> set rows. \<forall>y \<in> set rows.
        or_truck_id x = or_truck_id y \<longrightarrow> or_supplier x = or_supplier y)"

definition pack_inv :: "(int \<Rightarrow> int) \<Rightarrow> int \<Rightarrow> pack_state \<Rightarrow> bool" where
  "pack_inv caps supplier st \<longleftrightarrow>
     rows_inv caps (ps_truck_id st) (ps_rows st) \<and>
     (ps_remaining st = 0 \<or>
      (0 < ps_remaining st \<and> 0 < caps supplier \<and>
       ps_current_truck st = ps_truck_id st - 1 \<and> 2 \<le> ps_truck_id st \<and>
       truck_load (ps_rows st) (ps_current_truck st) + ps_remaining st = caps supplier \<and>
       (\<forall>x \<in> set (ps_rows st). or_truck_id x = ps_current_truck st \<longrightarrow> or_supplier x = supplier)))"

lemma truck_load_append:
  "truck_load (rows @ [x]) t = truck_load rows t + (if or_truck_id x = t then or_pallets x else 0)"
  by (simp add: truck_load_def)

lemma truck_load_fresh: "t \<notin> or_truck_id ` set rows \<Longrightarrow> truck_load rows t = 0"
proof -
  assume "t \<notin> or_truck_id ` set rows"
  then have "filter (\<lambda>r. or_truck_id r = t) rows = []"
    by (auto simp: filter_empty_conv)
  then show ?thesis by (simp add: truck_load_def)
qed

lemma rows_invD:
  assumes "rows_inv caps t rows"
  shows "1 \<le> t" and "sorted (map or_truck_id rows)"
    and "set (map or_truck_id rows) = {1..<t}"
    and "\<forall>y \<in> set rows. truck_load rows (or_truck_id y) \<le> caps (or_supplier y)"
    and "\<forall>y \<in> set rows. \<forall>z \<in> set rows.
        or_truck_id y = or_truck_id z \<longrightarrow> or_supplier y = or_supplier z"
  using assms unfolding rows_inv_def by blast+

lemma rows_inv_new_truck:
  assumes inv: "rows_inv caps t rows" and x: "or_truck_id x = t" "or_supplier x = s"
    and le: "or_pallets x \<le> caps s"
  shows "rows_inv caps (t + 1) (rows @ [x])"
proof -
  note t1 = rows_invD(1) [OF inv] and srt = rows_invD(2) [OF inv]
    and ids = rows_invD(3) [OF inv] and load = rows_invD(4) [OF inv]
    and one = rows_invD(5) [OF inv]
  have lt: "or_truck_id y < t" if "y \<in> set rows" for y
  proof -
    from that have "or_truck_id y \<in> set (map or_truck_id rows)" by simp
    then show ?thesis unfolding ids by simp
  qed
  have fresh: "t \<notin> or_truck_id ` set rows" using lt by auto
  have a: "sorted (map or_truck_id (rows @ [x]))"
    using srt lt x(1) by (auto simp: sorted_append dest: less_imp_le)
  have b: "set (map or_truck_id (rows @ [x])) = {1..<t + 1}"
  proof -
    have "set (map or_truck_id (rows @ [x])) = insert t (set (map or_truck_id rows))"
      using x(1) by simp
    also have "\<dots> = insert t {1..<t}" by (simp only: ids)
    also have "\<dots> = {1..<t + 1}" using t1 by auto
    finally show ?thesis .
  qed
  have c: "truck_load (rows @ [x]) (or_truck_id y) \<le> caps (or_supplier y)"
    if "y \<in> set (rows @ [x])" for y
  proof (cases "y \<in> set rows")
    case True
    then have "or_truck_id y \<noteq> t" using lt [of y] by simp
    then have "truck_load (rows @ [x]) (or_truck_id y) = truck_load rows (or_truck_id y)"
      using x(1) by (simp add: truck_load_append)
    then show ?thesis using load True by simp
  next
    case False
    then have "y = x" using that by simp
    then show ?thesis
      using x le fresh by (simp add: truck_load_append truck_load_fresh)
  qed
  have d: "or_supplier y = or_supplier z"
    if yz: "y \<in> set (rows @ [x])" "z \<in> set (rows @ [x])" "or_truck_id y = or_truck_id z" for y z
  proof -
    consider "y \<in> set rows" "z \<in> set rows" | "y \<in> set rows" "z = x" | "y = x" "z \<in> set rows" | "y = x" "z = x"
      using yz(1,2) by auto
    then show ?thesis
    proof cases
      case 1 then show ?thesis using one yz(3) by blast
    next
      case 2 then show ?thesis using lt [of y] yz(3) x(1) by simp
    next
      case 3 then show ?thesis using lt [of z] yz(3) x(1) by simp
    next
      case 4 then show ?thesis by simp
    qed
  qed
  show ?thesis
    unfolding rows_inv_def
  proof (intro conjI ballI impI)
    show "1 \<le> t + 1" using t1 by simp
    show "sorted (map or_truck_id (rows @ [x]))" by (rule a)
    show "set (map or_truck_id (rows @ [x])) = {1..<t + 1}" by (rule b)
  next
    fix y assume "y \<in> set (rows @ [x])"
    then show "truck_load (rows @ [x]) (or_truck_id y) \<le> caps (or_supplier y)" by (rule c)
  next
    fix y z assume "y \<in> set (rows @ [x])" "z \<in> set (rows @ [x])" "or_truck_id y = or_truck_id z"
    then show "or_supplier y = or_supplier z" by (rule d)
  qed
qed

lemma rows_inv_same_truck:
  assumes inv: "rows_inv caps t rows" and x: "or_truck_id x = t - 1" "or_supplier x = s"
    and t2: "2 \<le> t"
    and le: "truck_load rows (t - 1) + or_pallets x \<le> caps s"
    and sup: "\<forall>y \<in> set rows. or_truck_id y = t - 1 \<longrightarrow> or_supplier y = s"
  shows "rows_inv caps t (rows @ [x])"
proof -
  note t1 = rows_invD(1) [OF inv] and srt = rows_invD(2) [OF inv]
    and ids = rows_invD(3) [OF inv] and load = rows_invD(4) [OF inv]
    and one = rows_invD(5) [OF inv]
  have lt: "or_truck_id y \<le> t - 1" if "y \<in> set rows" for y
  proof -
    from that have "or_truck_id y \<in> set (map or_truck_id rows)" by simp
    then show ?thesis unfolding ids by simp
  qed
  have a: "sorted (map or_truck_id (rows @ [x]))"
    using srt lt x(1) by (auto simp: sorted_append)
  have b: "set (map or_truck_id (rows @ [x])) = {1..<t}"
  proof -
    have "set (map or_truck_id (rows @ [x])) = insert (t - 1) (set (map or_truck_id rows))"
      using x(1) by simp
    also have "\<dots> = insert (t - 1) {1..<t}" by (simp only: ids)
    also have "\<dots> = {1..<t}" using t2 by auto
    finally show ?thesis .
  qed
  have c: "truck_load (rows @ [x]) (or_truck_id y) \<le> caps (or_supplier y)"
    if y: "y \<in> set (rows @ [x])" for y
  proof (cases "or_truck_id y = t - 1")
    case True
    have "or_supplier y = s"
    proof (cases "y \<in> set rows")
      case True
      then show ?thesis using sup \<open>or_truck_id y = t - 1\<close> by blast
    next
      case False
      then show ?thesis using y x(2) by simp
    qed
    then show ?thesis using True x(1) le by (simp add: truck_load_append)
  next
    case False
    then have "y \<in> set rows" using y x(1) by auto
    moreover have "truck_load (rows @ [x]) (or_truck_id y) = truck_load rows (or_truck_id y)"
      using False x(1) by (simp add: truck_load_append)
    ultimately show ?thesis using load by simp
  qed
  have d: "or_supplier y = or_supplier z"
    if yz: "y \<in> set (rows @ [x])" "z \<in> set (rows @ [x])" "or_truck_id y = or_truck_id z" for y z
  proof -
    consider "y \<in> set rows" "z \<in> set rows" | "y \<in> set rows" "z = x" | "y = x" "z \<in> set rows" | "y = x" "z = x"
      using yz(1,2) by auto
    then show ?thesis
    proof cases
      case 1 then show ?thesis using one yz(3) by blast
    next
      case 2 then show ?thesis using sup yz(3) x by simp
    next
      case 3 then show ?thesis using sup yz(3) x by simp
    next
      case 4 then show ?thesis by simp
    qed
  qed
  show ?thesis
    unfolding rows_inv_def
  proof (intro conjI ballI impI)
    show "1 \<le> t" by (rule t1)
    show "sorted (map or_truck_id (rows @ [x]))" by (rule a)
    show "set (map or_truck_id (rows @ [x])) = {1..<t}" by (rule b)
  next
    fix y assume "y \<in> set (rows @ [x])"
    then show "truck_load (rows @ [x]) (or_truck_id y) \<le> caps (or_supplier y)" by (rule c)
  next
    fix y z assume "y \<in> set (rows @ [x])" "z \<in> set (rows @ [x])" "or_truck_id y = or_truck_id z"
    then show "or_supplier y = or_supplier z" by (rule d)
  qed
qed

lemma pack_invD:
  assumes "pack_inv caps supplier st"
  shows "rows_inv caps (ps_truck_id st) (ps_rows st)"
    and "ps_remaining st \<noteq> 0 \<Longrightarrow> 0 < ps_remaining st"
    and "ps_remaining st \<noteq> 0 \<Longrightarrow> ps_current_truck st = ps_truck_id st - 1"
    and "ps_remaining st \<noteq> 0 \<Longrightarrow> 2 \<le> ps_truck_id st"
    and "ps_remaining st \<noteq> 0 \<Longrightarrow>
           truck_load (ps_rows st) (ps_current_truck st) + ps_remaining st = caps supplier"
    and "ps_remaining st \<noteq> 0 \<Longrightarrow>
           \<forall>x \<in> set (ps_rows st). or_truck_id x = ps_current_truck st \<longrightarrow> or_supplier x = supplier"
  using assms unfolding pack_inv_def by blast+

lemma pack_take_step:
  assumes cap: "0 < caps supplier" and p: "0 < p" and inv: "pack_inv caps supplier st"
    and step: "pack_take (caps supplier) template supplier item p st = (p', st')"
  shows "\<exists>row. ps_rows st' = ps_rows st @ [row] \<and> slice_of item supplier row \<and>
           or_pallets row = p - p' \<and> 0 \<le> p' \<and> p' < p \<and>
           pack_inv caps supplier st' \<and> ps_truck_id st \<le> ps_truck_id st'"
proof (cases "ps_remaining st = 0")
  case True
  define take where "take = min (caps supplier) p"
  define row where "row =
     \<lparr>or_date = ai_date item, or_supplier = supplier, or_supplier_name = ai_supplier_name item,
      or_plu = ai_plu item, or_plu_name = ai_plu_name item, or_rc = ai_rc item,
      or_rc_name = ai_rc_name item,
      or_volume = float_mul (int_to_float take) (ai_pallet_weight item),
      or_truck_id = ps_truck_id st,
      or_shoulder = (case template of Some t \<Rightarrow> get_or (td_shoulder_map t) (supplier, ai_rc item) 1
                     | None \<Rightarrow> 1),
      or_pallet_weight = ai_pallet_weight item, or_pallets = take\<rparr>"
  have tk: "1 \<le> take" "take \<le> p" "take \<le> caps supplier"
    using cap p by (simp_all add: take_def)
  have st': "st' = st\<lparr>ps_current_truck := ps_truck_id st, ps_truck_id := ps_truck_id st + 1,
                      ps_remaining := caps supplier - take, ps_rows := ps_rows st @ [row]\<rparr>"
    and p': "p' = p - take"
    using step True by (simp_all add: pack_take_def Let_def take_def row_def)
  note rinv = pack_invD(1) [OF inv]
  have rows': "rows_inv caps (ps_truck_id st + 1) (ps_rows st @ [row])"
    using rinv tk(3) by (intro rows_inv_new_truck [where s = supplier]) (simp_all add: row_def)
  have fresh: "ps_truck_id st \<notin> or_truck_id ` set (ps_rows st)"
  proof
    assume "ps_truck_id st \<in> or_truck_id ` set (ps_rows st)"
    then have "ps_truck_id st \<in> set (map or_truck_id (ps_rows st))" by simp
    then show False unfolding rows_invD(3) [OF rinv] by simp
  qed
  have load: "truck_load (ps_rows st @ [row]) (ps_truck_id st) = take"
    using fresh by (simp add: truck_load_append truck_load_fresh row_def)
  have sup: "\<forall>x \<in> set (ps_rows st @ [row]). or_truck_id x = ps_truck_id st \<longrightarrow> or_supplier x = supplier"
    using fresh by (auto simp: row_def image_iff)
  have "pack_inv caps supplier st'"
    unfolding pack_inv_def st'
    using rows' load sup cap tk rows_invD(1) [OF rinv] by (simp; linarith)
  moreover have "slice_of item supplier row"
    using tk(1) by (simp add: slice_of_def row_def)
  ultimately show ?thesis
    using tk p' by (intro exI [of _ row]) (simp add: st' row_def)
next
  case False
  define take where "take = min (ps_remaining st) p"
  define row where "row =
     \<lparr>or_date = ai_date item, or_supplier = supplier, or_supplier_name = ai_supplier_name item,
      or_plu = ai_plu item, or_plu_name = ai_plu_name item, or_rc = ai_rc item,
      or_rc_name = ai_rc_name item,
      or_volume = float_mul (int_to_float take) (ai_pallet_weight item),
      or_truck_id = ps_current_truck st,
      or_shoulder = (case template of Some t \<Rightarrow> get_or (td_shoulder_map t) (supplier, ai_rc item) 1
                     | None \<Rightarrow> 1),
      or_pallet_weight = ai_pallet_weight item, or_pallets = take\<rparr>"
  note rinv = pack_invD(1) [OF inv]
  note r0 = pack_invD(2) [OF inv False] and cur = pack_invD(3) [OF inv False]
    and t2 = pack_invD(4) [OF inv False] and ld = pack_invD(5) [OF inv False]
    and sp = pack_invD(6) [OF inv False]
  have tk: "1 \<le> take" "take \<le> p" "take \<le> ps_remaining st"
    using r0 p by (simp_all add: take_def)
  have st': "st' = st\<lparr>ps_remaining := ps_remaining st - take, ps_rows := ps_rows st @ [row]\<rparr>"
    and p': "p' = p - take"
    using step False by (simp_all add: pack_take_def Let_def take_def row_def)
  have rows': "rows_inv caps (ps_truck_id st) (ps_rows st @ [row])"
  proof (rule rows_inv_same_truck [where s = supplier, OF rinv _ _ t2])
    show "or_truck_id row = ps_truck_id st - 1" by (simp add: row_def cur)
    show "or_supplier row = supplier" by (simp add: row_def)
    show "truck_load (ps_rows st) (ps_truck_id st - 1) + or_pallets row \<le> caps supplier"
      using ld tk(3) by (simp add: row_def cur)
    show "\<forall>y \<in> set (ps_rows st). or_truck_id y = ps_truck_id st - 1 \<longrightarrow> or_supplier y = supplier"
      using sp by (simp add: cur)
  qed
  have load: "truck_load (ps_rows st @ [row]) (ps_current_truck st) =
      truck_load (ps_rows st) (ps_current_truck st) + take"
    by (simp add: truck_load_append row_def)
  have sup: "\<forall>x \<in> set (ps_rows st @ [row]). or_truck_id x = ps_current_truck st \<longrightarrow> or_supplier x = supplier"
    using sp by (auto simp: row_def)
  have "pack_inv caps supplier st'"
    unfolding pack_inv_def st'
    using rows' load sup cap tk cur t2 ld by (simp; linarith)
  moreover have "slice_of item supplier row"
    using tk(1) by (simp add: slice_of_def row_def)
  ultimately show ?thesis
    using tk p' by (intro exI [of _ row]) (simp add: st' row_def)
qed

lemma fill_trucks_total:
  assumes cap: "0 < caps supplier" and inv: "pack_inv caps supplier st"
  shows "\<exists>st' chunk.
           fill_trucks (caps supplier) template supplier item p st = Some st' \<and>
           ps_rows st' = ps_rows st @ chunk \<and>
           list_all (slice_of item supplier) chunk \<and>
           sum_list (map or_pallets chunk) = max 0 p \<and>
           pack_inv caps supplier st' \<and> ps_truck_id st \<le> ps_truck_id st'"
  using inv
proof (induction "nat p" arbitrary: p st rule: less_induct)
  case less
  show ?case
  proof (cases "0 < p")
    case False
    then have "fill_trucks (caps supplier) template supplier item p st = Some st"
      by (subst fill_trucks.simps) simp
    then show ?thesis using False less.prems by (intro exI [of _ st] exI [of _ "[]"]) simp
  next
    case True
    obtain p' st1 where step: "pack_take (caps supplier) template supplier item p st = (p', st1)"
      by (cases "pack_take (caps supplier) template supplier item p st")
    from pack_take_step [OF cap True less.prems step]
    obtain row where row: "ps_rows st1 = ps_rows st @ [row]" "slice_of item supplier row"
      "or_pallets row = p - p'" "0 \<le> p'" "p' < p" "pack_inv caps supplier st1"
      "ps_truck_id st \<le> ps_truck_id st1"
      by blast
    have "nat p' < nat p" using row(4,5) by simp
    from less.hyps [OF this row(6)]
    obtain st' chunk where rec:
      "fill_trucks (caps supplier) template supplier item p' st1 = Some st'"
      "ps_rows st' = ps_rows st1 @ chunk" "list_all (slice_of item supplier) chunk"
      "sum_list (map or_pallets chunk) = max 0 p'" "pack_inv caps supplier st'"
      "ps_truck_id st1 \<le> ps_truck_id st'"
      by blast
    have "fill_trucks (caps supplier) template supplier item p st = Some st'"
      using True step rec(1) by (subst fill_trucks.simps) simp
    moreover have "ps_rows st' = ps_rows st @ (row # chunk)" using row(1) rec(2) by simp
    moreover have "list_all (slice_of item supplier) (row # chunk)" using row(2) rec(3) by simp
    moreover have "sum_list (map or_pallets (row # chunk)) = max 0 p"
      using row(3,4) rec(4) True by simp
    moreover have "ps_truck_id st \<le> ps_truck_id st'" using row(7) rec(6) by simp
    ultimately show ?thesis using rec(5) by blast
  qed
qed

lemma pack_items_total:
  assumes cap: "0 < caps supplier" and inv: "pack_inv caps supplier st"
  shows "\<exists>st' chunks.
           pack_items (caps supplier) template supplier items st = Some st' \<and>
           ps_rows st' = ps_rows st @ concat chunks \<and>
           list_all2 (\<lambda>item chunk. list_all (slice_of item supplier) chunk \<and>
                        sum_list (map or_pallets chunk) = max 0 (ai_pallets item)) items chunks \<and>
           pack_inv caps supplier st' \<and> ps_truck_id st \<le> ps_truck_id st'"
  using inv
proof (induction items arbitrary: st)
  case Nil
  then show ?case by (intro exI [of _ st] exI [of _ "[]"]) simp
next
  case (Cons item items)
  from fill_trucks_total [OF cap Cons.prems, of template item "ai_pallets item"]
  obtain st1 chunk where one:
    "fill_trucks (caps supplier) template supplier item (ai_pallets item) st = Some st1"
    "ps_rows st1 = ps_rows st @ chunk" "list_all (slice_of item supplier) chunk"
    "sum_list (map or_pallets chunk) = max 0 (ai_pallets item)" "pack_inv caps supplier st1"
    "ps_truck_id st \<le> ps_truck_id st1"
    by blast
  from Cons.IH [OF one(5)]
  obtain st' chunks where rest:
    "pack_items (caps supplier) template supplier items st1 = Some st'"
    "ps_rows st' = ps_rows st1 @ concat chunks"
    "list_all2 (\<lambda>item chunk. list_all (slice_of item supplier) chunk \<and>
                        sum_list (map or_pallets chunk) = max 0 (ai_pallets item)) items chunks"
    "pack_inv caps supplier st'" "ps_truck_id st1 \<le> ps_truck_id st'"
    by blast
  have "pack_items (caps supplier) template supplier (item # items) st = Some st'"
    using one(1) rest(1) by simp
  moreover have "ps_rows st' = ps_rows st @ concat (chunk # chunks)"
    using one(2) rest(2) by simp
  moreover have "list_all2 (\<lambda>item chunk. list_all (slice_of item supplier) chunk \<and>
                        sum_list (map or_pallets chunk) = max 0 (ai_pallets item))
                   (item # items) (chunk # chunks)"
    using one(3,4) rest(3) by simp
  moreover have "ps_truck_id st \<le> ps_truck_id st'" using one(6) rest(5) by simp
  ultimately show ?case using rest(4) by blast
qed

lemma fill_trucks_nonpos:
  assumes "cap \<le> 0" "ps_remaining st = 0"
    and "fill_trucks cap template supplier item p st = Some st'"
  shows "st' = st \<and> p \<le> 0"
proof (cases "0 < p")
  case True
  then show ?thesis using assms fill_trucks_diverges [of cap st p template supplier item] by simp
next
  case False
  then have "fill_trucks cap template supplier item p st = Some st"
    by (subst fill_trucks.simps) simp
  then show ?thesis using assms(3) False by simp
qed

lemma pack_items_nonpos:
  assumes "cap \<le> 0" "ps_remaining st = 0"
    and "pack_items cap template supplier items st = Some st'"
  shows "st' = st"
  using assms(3)
proof (induction items)
  case Nil
  then show ?case by simp
next
  case (Cons item items)
  then obtain st1 where one: "fill_trucks cap template supplier item (ai_pallets item) st = Some st1"
    and rest: "pack_items cap template supplier items st1 = Some st'"
    by (auto split: option.splits)
  from fill_trucks_nonpos [OF assms(1,2) one] have "st1 = st" by simp
  then show ?case using rest Cons.IH by simp
qed

lemma pack_items_inv:
  assumes inv: "pack_inv caps supplier st"
    and res: "pack_items (caps supplier) template supplier items st = Some st'"
  shows "pack_inv caps supplier st'"
proof (cases "0 < caps supplier")
  case True
  from pack_items_total [OF True inv, of template items] res show ?thesis by auto
next
  case False
  then have "ps_remaining st = 0" using pack_invD(2) [OF inv] inv
    unfolding pack_inv_def by auto
  with False res have "st' = st" using pack_items_nonpos [of "caps supplier" st] by simp
  then show ?thesis using inv by simp
qed

lemma pack_inv_start:
  "rows_inv caps (ps_truck_id st) (ps_rows st) \<Longrightarrow>
     pack_inv caps supplier (st\<lparr>ps_remaining := 0, ps_current_truck := 0\<rparr>)"
  by (simp add: pack_inv_def)

lemma pack_suppliers_inv:
  assumes "rows_inv (truck_capacity reserve options) (ps_truck_id st) (ps_rows st)"
    and "pack_suppliers reserve template options grouped suppliers st = Some st'"
  shows "rows_inv (truck_capacity reserve options) (ps_truck_id st') (ps_rows st')"
  using assms
proof (induction suppliers arbitrary: st)
  case Nil
  then show ?case by simp
next
  case (Cons supplier suppliers)
  let ?caps = "truck_capacity reserve options"
  let ?st0 = "st\<lparr>ps_remaining := 0, ps_current_truck := 0\<rparr>"
  let ?items = "sort_key (\<lambda>x. (ai_date x, ai_rc x, ai_plu x)) (get_or (map_of grouped) supplier [])"
  from Cons.prems(2) obtain st1 where
    one: "pack_items (?caps supplier) template supplier ?items ?st0 = Some st1"
    and rest: "pack_suppliers reserve template options grouped suppliers st1 = Some st'"
    by (auto simp: Let_def split: option.splits)
  have "pack_inv ?caps supplier ?st0" using Cons.prems(1) by (rule pack_inv_start)
  then have "pack_inv ?caps supplier st1" using one by (rule pack_items_inv)
  then have "rows_inv ?caps (ps_truck_id st1) (ps_rows st1)" by (rule pack_invD(1))
  then show ?case using rest by (rule Cons.IH)
qed

lemma rows_inv_init: "rows_inv caps 1 []"
  by (simp add: rows_inv_def)

lemma pack_trucks_inv:
  assumes "pack_trucks items reserve template options = Some rows"
  shows "\<exists>t. rows_inv (truck_capacity reserve options) t rows"
proof -
  let ?st0 = "\<lparr>ps_remaining = 0, ps_current_truck = 0, ps_truck_id = 1, ps_rows = []\<rparr>"
  from assms obtain st' where
    run: "pack_suppliers reserve template options (group_by_supplier items [])
            (sort (map fst (group_by_supplier items []))) ?st0 = Some st'"
    and rows: "rows = ps_rows st'"
    by (auto simp: pack_trucks_def Let_def)
  have "rows_inv (truck_capacity reserve options) (ps_truck_id ?st0) (ps_rows ?st0)"
    using rows_inv_init by simp
  from pack_suppliers_inv [OF this run] show ?thesis using rows by blast
qed

subsection \<open>Grouping by supplier and the packing order\<close>








subsection \<open>A run on two suppliers\<close>

text \<open>Supplier 7 has capacity 2 in the catalog and an item of five pallets, supplier 3
  has the default capacity 32 and an item of three pallets.\<close>

lemma example_run:
  "map_option (map (\<lambda>r. (or_truck_id r, or_supplier r, or_pallets r)))
     (pack_trucks [example_item, second_item] (empty_reserve\<lparr>ri_max_pallets := [7 \<mapsto> 2]\<rparr>) None
        default_options) =
   Some [(1, 3, 3), (2, 7, 2), (3, 7, 2), (4, 7, 1)]"
  by code_simp

lemma example_run_rows:
  obtains rows where
    "pack_trucks [example_item, second_item] (empty_reserve\<lparr>ri_max_pallets := [7 \<mapsto> 2]\<rparr>)
       None default_options = Some rows"
    "map (\<lambda>r. (or_truck_id r, or_supplier r, or_pallets r)) rows =
       [(1, 3, 3), (2, 7, 2), (3, 7, 2), (4, 7, 1)]"
proof (cases "pack_trucks [example_item, second_item]
    (empty_reserve\<lparr>ri_max_pallets := [7 \<mapsto> 2]\<rparr>) None default_options")
  case None
  with example_run show ?thesis by (simp only: option.map option.distinct)
next
  case (Some rows)
  with example_run
  have "map (\<lambda>r. (or_truck_id r, or_supplier r, or_pallets r)) rows =
       [(1, 3, 3), (2, 7, 2), (3, 7, 2), (4, 7, 1)]"
    by (simp only: option.map option.inject)
  with Some show ?thesis by (rule that)
qed

section \<open>Truck ids\<close>

text \<open>
  Claim C5. When \<^verbatim>\<open>pack_trucks\<close> returns, the truck ids of the output rows are exactly
  the integers \<open>1..N\<close> for some \<open>N \<ge> 0\<close> and their sequence over the row list is
  nondecreasing: one counter serves all suppliers, an id is never skipped and a truck
  that has been left is never used again.
\<close>

theorem truck_ids_consecutive:
  assumes "pack_trucks items reserve template options = Some rows"
  shows "(\<exists>N. 0 \<le> N \<and> set (map or_truck_id rows) = {1..N}) \<and>
         sorted (map or_truck_id rows)"
proof -
  from pack_trucks_inv [OF assms] obtain t
    where inv: "rows_inv (truck_capacity reserve options) t rows" by blast
  have "set (map or_truck_id rows) = {1..t - 1}"
    using rows_invD(3) [OF inv] by auto
  moreover have "0 \<le> t - 1" using rows_invD(1) [OF inv] by simp
  ultimately show ?thesis using rows_invD(2) [OF inv] by blast
qed

theorem truck_ids_consecutive_witness:
  "map_option (map or_truck_id)
     (pack_trucks [example_item, second_item] (empty_reserve\<lparr>ri_max_pallets := [7 \<mapsto> 2]\<rparr>) None
        default_options) = Some [1, 2, 3, 4] \<and>
   (\<exists>N. 0 \<le> N \<and> set [1, 2, 3, 4 :: int] = {1..N}) \<and> sorted [1, 2, 3, 4 :: int]"
proof -
  obtain rows where
    run: "pack_trucks [example_item, second_item] (empty_reserve\<lparr>ri_max_pallets := [7 \<mapsto> 2]\<rparr>)
            None default_options = Some rows"
    and shape: "map (\<lambda>r. (or_truck_id r, or_supplier r, or_pallets r)) rows =
       [(1, 3, 3), (2, 7, 2), (3, 7, 2), (4, 7, 1)]"
    by (rule example_run_rows)
  have "map fst (map (\<lambda>r. (or_truck_id r, or_supplier r, or_pallets r)) rows) =
      map fst [(1, 3, 3), (2, 7, 2), (3, 7, 2), (4 :: int, 7 :: int, 1 :: int)]"
    using shape by (rule arg_cong)
  then have ids: "map or_truck_id rows = [1, 2, 3, 4]" by (simp add: comp_def)
  have out: "map_option (map or_truck_id)
     (pack_trucks [example_item, second_item] (empty_reserve\<lparr>ri_max_pallets := [7 \<mapsto> 2]\<rparr>) None
        default_options) = Some [1, 2, 3, 4]"
    by (simp only: run option.map ids)
  from truck_ids_consecutive [OF run]
  have "(\<exists>N. 0 \<le> N \<and> set [1, 2, 3, 4 :: int] = {1..N}) \<and> sorted [1, 2, 3, 4 :: int]"
    by (simp only: ids)
  with out show ?thesis by (rule conjI)
qed

section \<open>Truck capacity\<close>

text \<open>
  Claim C6. After every pass through the body of the \<^verbatim>\<open>while\<close> loop the counter
  \<^verbatim>\<open>remaining\<close> is not negative. When \<^verbatim>\<open>pack_trucks\<close> returns, the pallet counts of
  the rows carrying one truck id sum to at most the capacity of the supplier of those
  rows, and all rows carrying one truck id belong to one supplier.
\<close>

theorem truck_capacity_respected:
  assumes "pack_trucks items reserve template options = Some rows"
  shows "0 \<le> ps_remaining (snd (pack_take cap template supplier item pallets_left st)) \<and>
         (\<forall>x \<in> set rows.
            truck_load rows (or_truck_id x) \<le> truck_capacity reserve options (or_supplier x) \<and>
            (\<forall>y \<in> set rows. or_truck_id y = or_truck_id x \<longrightarrow> or_supplier y = or_supplier x))"
proof -
  from pack_trucks_inv [OF assms] obtain t
    where inv: "rows_inv (truck_capacity reserve options) t rows" by blast
  have "0 \<le> ps_remaining (snd (pack_take cap template supplier item pallets_left st))"
    by (simp add: pack_take_def Let_def)
  then show ?thesis using rows_invD(4,5) [OF inv] by blast
qed

theorem truck_capacity_respected_witness:
  "\<exists>rows.
     pack_trucks [example_item, second_item] (empty_reserve\<lparr>ri_max_pallets := [7 \<mapsto> 2]\<rparr>) None
       default_options = Some rows \<and>
     map (\<lambda>r. (or_truck_id r, or_supplier r, or_pallets r)) rows =
       [(1, 3, 3), (2, 7, 2), (3, 7, 2), (4, 7, 1)] \<and>
     list_all (\<lambda>x. truck_load rows (or_truck_id x) \<le>
                   truck_capacity (empty_reserve\<lparr>ri_max_pallets := [7 \<mapsto> 2]\<rparr>) default_options
                     (or_supplier x)) rows \<and>
     list_all (\<lambda>x. list_all (\<lambda>y. or_truck_id y = or_truck_id x \<longrightarrow> or_supplier y = or_supplier x) rows)
       rows"
proof -
  obtain rows where
    run: "pack_trucks [example_item, second_item] (empty_reserve\<lparr>ri_max_pallets := [7 \<mapsto> 2]\<rparr>)
            None default_options = Some rows"
    and shape: "map (\<lambda>r. (or_truck_id r, or_supplier r, or_pallets r)) rows =
       [(1, 3, 3), (2, 7, 2), (3, 7, 2), (4, 7, 1)]"
    by (rule example_run_rows)
  from truck_capacity_respected [OF run]
  have "\<forall>x \<in> set rows.
            truck_load rows (or_truck_id x) \<le>
              truck_capacity (empty_reserve\<lparr>ri_max_pallets := [7 \<mapsto> 2]\<rparr>) default_options (or_supplier x) \<and>
            (\<forall>y \<in> set rows. or_truck_id y = or_truck_id x \<longrightarrow> or_supplier y = or_supplier x)"
    by (rule conjunct2)
  then have "list_all (\<lambda>x. truck_load rows (or_truck_id x) \<le>
                   truck_capacity (empty_reserve\<lparr>ri_max_pallets := [7 \<mapsto> 2]\<rparr>) default_options
                     (or_supplier x)) rows \<and>
     list_all (\<lambda>x. list_all (\<lambda>y. or_truck_id y = or_truck_id x \<longrightarrow> or_supplier y = or_supplier x) rows)
       rows"
    unfolding list_all_iff by blast
  then show ?thesis
    by (intro exI [of _ rows] conjI run shape) (erule conjunct1, erule conjunct2)
qed

section \<open>Pallet conservation\<close>



section \<open>The truck capacity of a supplier\<close>


section \<open>The builder never raises\<close>















section \<open>Totality of the pipeline\<close>






section \<open>One split per demand record\<close>





lemma to_binary64_zero: "to_binary64 0 = 0"
  by (simp add: to_binary64_def)







end
